theory Spec2Isabelle
  imports Main "HOL-Library.Char_ord" "HOL-Library.List_Lexorder"
begin

section \<open>Durable write queue (queue.ts)\<close>

text \<open>
  The queue is the private array \<open>items\<close> of \<open>WriteQueue\<close>. Each mutation also
  rewrites the queue file on disk (\<open>save()\<close>, whose failures are caught and logged);
  the file is never read back after construction, so the model keeps the array only.
  Strings are lists of UTF-16 code units below 256 (the Latin-1 range), one \<open>char\<close>
  per code unit; JavaScript numbers that count things are integers.
\<close>

datatype operation = Save | Delete

record QueueItem =
  qpath :: string
  qcontent :: string
  operation :: operation
  timestamp :: int
  retryCount :: int

definition MAX_RETRIES :: int where
  "MAX_RETRIES = 3"

text \<open>\<open>enqueue\<close>: filter out the path, push a fresh item. \<open>now\<close> is \<open>Date.now()\<close>.\<close>

definition enqueue :: "string \<Rightarrow> string \<Rightarrow> operation \<Rightarrow> int \<Rightarrow> QueueItem list \<Rightarrow> QueueItem list" where
  "enqueue path content' op now items =
     filter (\<lambda>item. qpath item \<noteq> path) items
       @ [\<lparr>qpath = path, qcontent = content', operation = op, timestamp = now, retryCount = 0\<rparr>]"

definition getAll :: "QueueItem list \<Rightarrow> QueueItem list" where
  "getAll items = items"

definition remove :: "string \<Rightarrow> QueueItem list \<Rightarrow> QueueItem list" where
  "remove path items = filter (\<lambda>item. qpath item \<noteq> path) items"

text \<open>
  \<open>item.retryCount++\<close> mutates, in place, the object that \<open>find\<close> returned: the first
  item of the array with that path.
\<close>

fun bump_first :: "string \<Rightarrow> QueueItem list \<Rightarrow> QueueItem list" where
  "bump_first path [] = []"
| "bump_first path (i # is) =
     (if qpath i = path then i\<lparr>retryCount := retryCount i + 1\<rparr> # is
      else i # bump_first path is)"

definition incrementRetry :: "string \<Rightarrow> QueueItem list \<Rightarrow> bool \<times> QueueItem list" where
  "incrementRetry path items =
     (case find (\<lambda>i. qpath i = path) items of
        None \<Rightarrow> (False, items)
      | Some item \<Rightarrow>
          (let items' = bump_first path items in
           if retryCount item + 1 \<ge> MAX_RETRIES
           then (False, filter (\<lambda>i. qpath i \<noteq> path) items')
           else (True, items')))"

text \<open>A caller's view of the queue: the three mutating operations, run in sequence.\<close>

datatype queue_op =
    Enqueue string string operation int
  | Remove string
  | IncrementRetry string

fun apply_queue_op :: "QueueItem list \<Rightarrow> queue_op \<Rightarrow> QueueItem list" where
  "apply_queue_op items (Enqueue path content' op now) = enqueue path content' op now items"
| "apply_queue_op items (Remove path) = remove path items"
| "apply_queue_op items (IncrementRetry path) = snd (incrementRetry path items)"

definition run_queue_ops :: "queue_op list \<Rightarrow> QueueItem list \<Rightarrow> QueueItem list" where
  "run_queue_ops ops items = foldl apply_queue_op items ops"

section \<open>JavaScript string built-ins used by the sources\<close>

text \<open>
  \<open>String.prototype.toLowerCase\<close> on code units below 256: the ASCII capitals and the
  Latin-1 capitals U+00C0..U+00DE other than the multiplication sign U+00D7 move up by
  32; every other code unit of the range is its own lower case. The length is unchanged
  on these units; a unit outside the range whose lower case is longer is treated in the
  section on snippets of strings whose lower case is longer.
\<close>

definition toLowerCase_unit :: "char \<Rightarrow> char" where
  "toLowerCase_unit c =
     (let n = (of_char c :: nat) in
      if (65 \<le> n \<and> n \<le> 90) \<or> (192 \<le> n \<and> n \<le> 222 \<and> n \<noteq> 215)
      then char_of (n + 32) else c)"

definition toLowerCase :: "string \<Rightarrow> string" where
  "toLowerCase s = map toLowerCase_unit s"

definition startsWith :: "'a list \<Rightarrow> 'a list \<Rightarrow> bool" where
  "startsWith s t = (take (length t) s = t)"

definition endsWith :: "string \<Rightarrow> string \<Rightarrow> bool" where
  "endsWith s t = (length t \<le> length s \<and> drop (length s - length t) s = t)"

text \<open>
  \<open>indexOf\<close>: the smallest position at which the needle starts, or -1. The empty needle
  is found at 0, also in the empty string.
\<close>

fun indexOf_from :: "nat \<Rightarrow> 'a list \<Rightarrow> 'a list \<Rightarrow> int" where
  "indexOf_from k [] needle = (if needle = [] then int k else -1)"
| "indexOf_from k (c # cs) needle =
     (if startsWith (c # cs) needle then int k else indexOf_from (Suc k) cs needle)"

definition indexOf :: "'a list \<Rightarrow> 'a list \<Rightarrow> int" where
  "indexOf s needle = indexOf_from 0 s needle"

definition includes_str :: "string \<Rightarrow> string \<Rightarrow> bool" where
  "includes_str s needle = (indexOf s needle \<noteq> -1)"

text \<open>
  \<open>slice(start, end)\<close> with integer arguments: a negative argument counts from the
  end, both are clamped to the string, and an empty range gives the empty string.
\<close>

definition slice :: "'a list \<Rightarrow> int \<Rightarrow> int \<Rightarrow> 'a list" where
  "slice s start end' =
     (let len = int (length s);
          lo = (if start < 0 then max (len + start) 0 else min start len);
          hi = (if end' < 0 then max (len + end') 0 else min end' len)
      in take (nat (hi - lo)) (drop (nat lo) s))"

text \<open>\<open>split(sep)\<close> for a one-unit separator: the result is never empty, and the empty string splits to one empty part.\<close>

fun split_str :: "char \<Rightarrow> string \<Rightarrow> string list" where
  "split_str sep [] = [[]]"
| "split_str sep (c # cs) =
     (if c = sep then [] # split_str sep cs
      else (case split_str sep cs of
              p # ps \<Rightarrow> (c # p) # ps
            | [] \<Rightarrow> [[c]]))"

text \<open>
  \<open>Buffer.byteLength(s, 'utf-8')\<close>: a code unit below 128 is one byte, one of
  128..255 is two.
\<close>

definition byteLength :: "string \<Rightarrow> nat" where
  "byteLength s = sum_list (map (\<lambda>c. if (of_char c :: nat) < 128 then 1 else 2) s)"

section \<open>In-memory cache (cache.ts)\<close>

text \<open>
  The cache is a JavaScript \<open>Map\<close> from path to entry. A \<open>Map\<close> iterates in insertion
  order, and setting a key it already has keeps the key's position, so the model is an
  association list: \<open>set\<close> replaces in place or appends, \<open>get\<close> reads the binding of
  the key.
\<close>

record CacheEntry =
  content :: string
  sha :: string

record SearchResult =
  rpath :: string
  snippet :: string

type_synonym cache_map = "(string \<times> CacheEntry) list"

definition cache_get :: "string \<Rightarrow> cache_map \<Rightarrow> CacheEntry option" where
  "cache_get path c = map_of c path"

fun map_set :: "string \<Rightarrow> CacheEntry \<Rightarrow> cache_map \<Rightarrow> cache_map" where
  "map_set k v [] = [(k, v)]"
| "map_set k v ((k', v') # rest) =
     (if k' = k then (k, v) # rest else (k', v') # map_set k v rest)"

definition cache_set :: "string \<Rightarrow> string \<Rightarrow> string \<Rightarrow> cache_map \<Rightarrow> cache_map" where
  "cache_set path content' sha' c = map_set path \<lparr>content = content', sha = sha'\<rparr> c"

definition cache_delete :: "string \<Rightarrow> cache_map \<Rightarrow> bool \<times> cache_map" where
  "cache_delete path c = (path \<in> set (map fst c), filter (\<lambda>kv. fst kv \<noteq> path) c)"

definition cache_has :: "string \<Rightarrow> cache_map \<Rightarrow> bool" where
  "cache_has path c = (path \<in> set (map fst c))"

definition cache_keys :: "cache_map \<Rightarrow> string list" where
  "cache_keys c = map fst c"

definition cache_entries :: "cache_map \<Rightarrow> (string \<times> CacheEntry) list" where
  "cache_entries c = c"

text \<open>
  \<open>categories()\<close>: a \<open>Set\<close> collects \<open>parts[0]\<close> of every key that splits into more
  than one part; \<open>Array.from(...).sort()\<close> orders the strings by code units.
\<close>

definition set_add :: "string \<Rightarrow> string list \<Rightarrow> string list" where
  "set_add x xs = (if x \<in> set xs then xs else xs @ [x])"

text \<open>The body of the loop over the keys (lines 79 to 82).\<close>

definition cat_step :: "string list \<Rightarrow> string \<Rightarrow> string list" where
  "cat_step cats path =
     (let parts = split_str CHR ''/'' path in
      if length parts > 1 then set_add (parts ! 0) cats else cats)"

definition categories :: "cache_map \<Rightarrow> string list" where
  "categories c = sort (foldl cat_step [] (cache_keys c))"

definition maxLength :: nat where
  "maxLength = 150"

definition extractSnippet :: "string \<Rightarrow> string \<Rightarrow> int option \<Rightarrow> string" where
  "extractSnippet content' query matchIndex =
     (if length content' \<le> maxLength then content'
      else
        (let matchIndex' =
               (case matchIndex of
                  None \<Rightarrow> indexOf (toLowerCase content') (toLowerCase query)
                | Some i \<Rightarrow> i)
         in if matchIndex' = -1 then slice content' 0 (int maxLength) @ ''...''
            else
              (let snippetStart = max 0 (matchIndex' - 50);
                   snippetEnd = min (int (length content')) (matchIndex' + int (length query) + 100);
                   snippet1 = slice content' snippetStart snippetEnd;
                   snippet2 = (if snippetStart > 0 then ''...'' @ snippet1 else snippet1)
               in if snippetEnd < int (length content') then snippet2 @ ''...'' else snippet2)))"

fun search_loop :: "string \<Rightarrow> string \<Rightarrow> (string \<times> CacheEntry) list \<Rightarrow> SearchResult list \<Rightarrow> SearchResult list" where
  "search_loop query queryLower [] results = results"
| "search_loop query queryLower ((path, entry) # rest) results =
     (if includes_str (toLowerCase path) queryLower
      then search_loop query queryLower rest
             (results @ [\<lparr>rpath = path, snippet = extractSnippet (content entry) query None\<rparr>])
      else
        (let contentLower = toLowerCase (content entry);
             matchIndex = indexOf contentLower queryLower
         in if matchIndex \<noteq> -1
            then search_loop query queryLower rest
                   (results @ [\<lparr>rpath = path, snippet = extractSnippet (content entry) query (Some matchIndex)\<rparr>])
            else search_loop query queryLower rest results))"

definition search :: "string \<Rightarrow> cache_map \<Rightarrow> SearchResult list" where
  "search query c = search_loop query (toLowerCase query) (cache_entries c) []"

text \<open>
  The words of the specification, for comparison with the code: the category of a path
  is its first slash-delimited segment, and the query occurs in the content at a
  position, case-insensitively, when the content's units from there on, as many as the
  query has, equal the query up to case (\<open>occurs_at\<close> is the same with case).
\<close>

definition first_segment :: "string \<Rightarrow> string" where
  "first_segment path = takeWhile (\<lambda>c. c \<noteq> CHR ''/'') path"

definition occurs_at :: "string \<Rightarrow> string \<Rightarrow> nat \<Rightarrow> bool" where
  "occurs_at s n i = (i + length n \<le> length s \<and> take (length n) (drop i s) = n)"

definition occurs_at_ci :: "string \<Rightarrow> string \<Rightarrow> nat \<Rightarrow> bool" where
  "occurs_at_ci content' query i =
     (i + length query \<le> length content'
      \<and> toLowerCase (take (length query) (drop i content')) = toLowerCase query)"

section \<open>Async writer (writer.ts) and index builder (index-gen.ts)\<close>

text \<open>
  The process is single-threaded: an \<open>async\<close> function runs without interruption from
  one \<open>await\<close> to the next. Each such stretch of \<open>syncToGitHub\<close>, \<open>deleteFromGitHub\<close>
  and \<open>updateIndex\<close> is one function on the state below, and a function suspended at an
  \<open>await\<close> is a \<open>task\<close> that \<open>resume\<close> continues with the outcome of the remote call:
  \<open>Inr\<close> the value the promise is fulfilled with, \<open>Inl\<close> the error it is rejected with.
  The state is the cache singleton, the queue singleton and the writer's
  \<open>pendingWrites\<close> set, together with the suspended tasks, the log of the calls made
  on the remote store client and the number of index rebuilds started.
\<close>

definition MAX_FILE_SIZE :: nat where
  "MAX_FILE_SIZE = 1 * 1024 * 1024"

definition INDEX_PATH :: string where
  "INDEX_PATH = ''index.json''"

datatype remote_call =
    PutFile string string "string option"
  | DeleteFile string string

datatype task =
    SyncPut string string
  | SyncIndex string string
  | DeletePut string
  | DeleteIndex string string

record world =
  cache :: cache_map
  queue :: "QueueItem list"
  pendingWrites :: "string list"
  tasks :: "task list"
  calls :: "remote_call list"
  rebuilds :: nat

record SaveResult =
  success :: bool
  spath :: string
  error :: "string option"

record DeleteResult =
  dsuccess :: bool
  derror :: "string option"

text \<open>
  A non-negative integer in a template literal is printed in decimal;
  \<open>Math.round(n / 1024)\<close> rounds halves up, which on a natural number \<open>n\<close> is
  \<open>(n + 512) div 1024\<close>.
\<close>

fun show_nat :: "nat \<Rightarrow> string" where
  "show_nat n =
     (if n < 10 then [char_of (48 + n)]
      else show_nat (n div 10) @ [char_of (48 + n mod 10)])"

declare show_nat.simps [simp del]

definition size_error :: "nat \<Rightarrow> string" where
  "size_error contentSize =
     ''File size ('' @ show_nat ((contentSize + 512) div 1024)
       @ ''KB) exceeds maximum allowed size ('' @ show_nat (MAX_FILE_SIZE div 1024) @ ''KB)''"

text \<open>
  The character class of \<open>/[^a-z0-9-]/g\<close>: a unit the class does not exclude is kept,
  every other unit is replaced by a hyphen.
\<close>

definition in_class :: "char \<Rightarrow> bool" where
  "in_class c =
     (let n = (of_char c :: nat) in
      (97 \<le> n \<and> n \<le> 122) \<or> (48 \<le> n \<and> n \<le> 57) \<or> c = CHR ''-'')"

definition normalizedCategory :: "string \<Rightarrow> string" where
  "normalizedCategory category =
     map (\<lambda>c. if in_class c then c else CHR ''-'') (toLowerCase category)"

definition normalizedName :: "string \<Rightarrow> string" where
  "normalizedName name =
     (if endsWith name ''.md'' \<or> endsWith name ''.yaml'' \<or> endsWith name ''.json''
      then name else name @ ''.md'')"

text \<open>
  \<open>syncToGitHub\<close> up to its \<open>await\<close> of \<open>putFile\<close> (lines 80 to 91): nothing happens
  when a sync of the path is in flight; otherwise the path is marked, the call is made
  and the function is suspended.
\<close>

definition syncToGitHub :: "string \<Rightarrow> string \<Rightarrow> string option \<Rightarrow> world \<Rightarrow> world" where
  "syncToGitHub p content' sha' w =
     (if p \<in> set (pendingWrites w) then w
      else w\<lparr>pendingWrites := set_add p (pendingWrites w),
             calls := calls w @ [PutFile p content' sha'],
             tasks := tasks w @ [SyncPut p content']\<rparr>)"

definition deleteFromGitHub :: "string \<Rightarrow> string \<Rightarrow> world \<Rightarrow> world" where
  "deleteFromGitHub p sha' w =
     (if p \<in> set (pendingWrites w) then w
      else w\<lparr>pendingWrites := set_add p (pendingWrites w),
             calls := calls w @ [DeleteFile p sha'],
             tasks := tasks w @ [DeletePut p]\<rparr>)"

text \<open>\<open>save\<close> (lines 26 to 56); it returns before the task it started is resumed.\<close>

definition save :: "string \<Rightarrow> string \<Rightarrow> string \<Rightarrow> world \<Rightarrow> SaveResult \<times> world" where
  "save category name content' w =
     (let contentSize = byteLength content' in
      if contentSize > MAX_FILE_SIZE
      then (\<lparr>success = False, spath = [], error = Some (size_error contentSize)\<rparr>, w)
      else
        (let p = normalizedCategory category @ ''/'' @ normalizedName name;
             existing = cache_get p (cache w);
             sha' = map_option sha existing;
             w1 = w\<lparr>cache := cache_set p content'
                                 (case sha' of None \<Rightarrow> ''pending'' | Some s \<Rightarrow> s) (cache w)\<rparr>;
             w2 = syncToGitHub p content' sha' w1
         in (\<lparr>success = True, spath = p, error = None\<rparr>, w2)))"

text \<open>\<open>delete\<close> (lines 61 to 75).\<close>

definition writer_delete :: "string \<Rightarrow> world \<Rightarrow> DeleteResult \<times> world" where
  "writer_delete p w =
     (case cache_get p (cache w) of
        None \<Rightarrow> (\<lparr>dsuccess = False, derror = Some (''File not found: '' @ p)\<rparr>, w)
      | Some existing \<Rightarrow>
          (let w1 = w\<lparr>cache := snd (cache_delete p (cache w))\<rparr>;
               w2 = deleteFromGitHub p (sha existing) w1
           in (\<lparr>dsuccess = True, derror = None\<rparr>, w2)))"

text \<open>
  \<open>updateIndex\<close> up to its \<open>await\<close> of \<open>putFile\<close>, and from there on. The manifest's
  text is computed from the cache's keys by locale-dependent sorting, JSON serialisation
  and the clock (lines 19 to 36 of index-gen.ts); \<open>render\<close> stands for that computation.
  A rejected write is rethrown, and \<open>updateIndexSafe\<close> catches it.
\<close>

definition updateIndex_start :: "(string list \<Rightarrow> string) \<Rightarrow> world \<Rightarrow> string \<times> world" where
  "updateIndex_start render w =
     (let content' = render (cache_keys (cache w));
          existingIndex = cache_get INDEX_PATH (cache w)
      in (content',
          w\<lparr>calls := calls w @ [PutFile INDEX_PATH content' (map_option sha existingIndex)],
            rebuilds := rebuilds w + 1\<rparr>))"

definition updateIndex_finish :: "string \<Rightarrow> string + string \<Rightarrow> world \<Rightarrow> world" where
  "updateIndex_finish content' outcome w =
     (case outcome of
        Inr newSha \<Rightarrow> w\<lparr>cache := cache_set INDEX_PATH content' newSha (cache w)\<rparr>
      | Inl e \<Rightarrow> w)"

text \<open>
  The rest of \<open>syncToGitHub\<close> and \<open>deleteFromGitHub\<close> after each \<open>await\<close>. \<open>now\<close> is
  \<open>Date.now()\<close> at the time of an enqueue.
\<close>

definition finish_sync :: "string \<Rightarrow> world \<Rightarrow> world" where
  "finish_sync p w =
     w\<lparr>queue := remove p (queue w), pendingWrites := removeAll p (pendingWrites w)\<rparr>"

fun run_task :: "(string list \<Rightarrow> string) \<Rightarrow> int \<Rightarrow> task \<Rightarrow> string + string \<Rightarrow> world \<Rightarrow> world" where
  "run_task render now (SyncPut p content') (Inr newSha) w =
     (let w1 = w\<lparr>cache := cache_set p content' newSha (cache w)\<rparr>;
          (ic, w2) = updateIndex_start render w1
      in w2\<lparr>tasks := tasks w2 @ [SyncIndex p ic]\<rparr>)"
| "run_task render now (SyncPut p content') (Inl e) w =
     w\<lparr>queue := enqueue p content' Save now (queue w),
       pendingWrites := removeAll p (pendingWrites w)\<rparr>"
| "run_task render now (SyncIndex p ic) outcome w =
     finish_sync p (updateIndex_finish ic outcome w)"
| "run_task render now (DeletePut p) (Inr u) w =
     (let (ic, w2) = updateIndex_start render w
      in w2\<lparr>tasks := tasks w2 @ [DeleteIndex p ic]\<rparr>)"
| "run_task render now (DeletePut p) (Inl e) w =
     w\<lparr>queue := enqueue p [] Delete now (queue w),
       pendingWrites := removeAll p (pendingWrites w)\<rparr>"
| "run_task render now (DeleteIndex p ic) outcome w =
     finish_sync p (updateIndex_finish ic outcome w)"

definition resume :: "(string list \<Rightarrow> string) \<Rightarrow> int \<Rightarrow> nat \<Rightarrow> string + string \<Rightarrow> world \<Rightarrow> world" where
  "resume render now k outcome w =
     (if k < length (tasks w)
      then run_task render now (tasks w ! k) outcome
             (w\<lparr>tasks := take k (tasks w) @ drop (Suc k) (tasks w)\<rparr>)
      else w)"

text \<open>
  \<open>drainQueue\<close> (lines 158 to 190), run without other tasks in between. \<open>remote\<close> is the
  remote store: from the log of all calls so far, the last being the one made now, it
  gives that call's outcome.
\<close>

definition issue :: "(remote_call list \<Rightarrow> string + string) \<Rightarrow> remote_call \<Rightarrow> world \<Rightarrow> (string + string) \<times> world" where
  "issue remote call w = (let cs = calls w @ [call] in (remote cs, w\<lparr>calls := cs\<rparr>))"

definition settle :: "string \<Rightarrow> string + string \<Rightarrow> world \<Rightarrow> world" where
  "settle p outcome w =
     (case outcome of
        Inr u \<Rightarrow> w\<lparr>queue := remove p (queue w)\<rparr>
      | Inl e \<Rightarrow> w\<lparr>queue := snd (incrementRetry p (queue w))\<rparr>)"

definition drain_item :: "(remote_call list \<Rightarrow> string + string) \<Rightarrow> QueueItem \<Rightarrow> world \<Rightarrow> world" where
  "drain_item remote item w =
     (case operation item of
        Save \<Rightarrow>
          (let existing = cache_get (qpath item) (cache w);
               (r, w1) = issue remote (PutFile (qpath item) (qcontent item) (map_option sha existing)) w
           in settle (qpath item) r w1)
      | Delete \<Rightarrow>
          (case cache_get (qpath item) (cache w) of
             None \<Rightarrow> w\<lparr>queue := remove (qpath item) (queue w)\<rparr>
           | Some existing \<Rightarrow>
               (let (r, w1) = issue remote (DeleteFile (qpath item) (sha existing)) w
                in settle (qpath item) r w1)))"

fun drain_items :: "(remote_call list \<Rightarrow> string + string) \<Rightarrow> QueueItem list \<Rightarrow> world \<Rightarrow> world" where
  "drain_items remote [] w = w"
| "drain_items remote (item # rest) w = drain_items remote rest (drain_item remote item w)"

definition updateIndexSafe :: "(remote_call list \<Rightarrow> string + string) \<Rightarrow> (string list \<Rightarrow> string) \<Rightarrow> world \<Rightarrow> world" where
  "updateIndexSafe remote render w =
     (let (ic, w1) = updateIndex_start render w
      in updateIndex_finish ic (remote (calls w1)) w1)"

definition drainQueue :: "(remote_call list \<Rightarrow> string + string) \<Rightarrow> (string list \<Rightarrow> string) \<Rightarrow> world \<Rightarrow> world" where
  "drainQueue remote render w =
     (let items = getAll (queue w) in
      if length items = 0 then w
      else updateIndexSafe remote render (drain_items remote items w))"

text \<open>
  The words of the specification for the path of a saved file: the category in lower
  case with every character other than a small letter, a digit or a hyphen replaced by
  a hyphen, and the name with \<open>.md\<close> appended unless it ends in \<open>.md\<close>, \<open>.yaml\<close> or
  \<open>.json\<close>.
\<close>

definition spec_category :: "string \<Rightarrow> string" where
  "spec_category category =
     map (\<lambda>c. if c \<in> set ''abcdefghijklmnopqrstuvwxyz0123456789-'' then c else CHR ''-'')
         (toLowerCase category)"

fun ends_in :: "string \<Rightarrow> string \<Rightarrow> bool" where
  "ends_in [] ext = (ext = [])"
| "ends_in (c # cs) ext = (c # cs = ext \<or> ends_in cs ext)"

definition spec_name :: "string \<Rightarrow> string" where
  "spec_name name =
     (if ends_in name ''.md'' \<or> ends_in name ''.yaml'' \<or> ends_in name ''.json''
      then name else name @ ''.md'')"

text \<open>A state with nothing cached, nothing queued and nothing in flight.\<close>

definition empty_world :: world where
  "empty_world = \<lparr>cache = [], queue = [], pendingWrites = [], tasks = [], calls = [], rebuilds = 0\<rparr>"

section \<open>Snippets of strings whose lower case is longer\<close>

text \<open>
  On the Latin-1 units of the sections above \<open>toLowerCase\<close> maps unit to unit, so a
  position in the lowered string is the same position in the string. In general it is
  not: the lower case of U+0130 (capital I with dot above) is the two units U+0069
  U+0307, and every later position moves. \<open>extractSnippet\<close> finds the match in the
  lowered content and slices the original content, so its body (lines 123 to 153) is
  given once more over the Latin-1 units extended by U+0130 and U+0307, which is its own
  lower case. \<open>indexOf\<close> and \<open>slice\<close> are the ones above.
\<close>

datatype wide_unit = Latin1 char | U0130 | U0307

fun toLowerCase_wide_unit :: "wide_unit \<Rightarrow> wide_unit list" where
  "toLowerCase_wide_unit (Latin1 c) = [Latin1 (toLowerCase_unit c)]"
| "toLowerCase_wide_unit U0130 = [Latin1 CHR ''i'', U0307]"
| "toLowerCase_wide_unit U0307 = [U0307]"

definition toLowerCase_wide :: "wide_unit list \<Rightarrow> wide_unit list" where
  "toLowerCase_wide s = concat (map toLowerCase_wide_unit s)"

text \<open>A string literal of the source, over the extended units.\<close>

definition wide :: "string \<Rightarrow> wide_unit list" where
  "wide s = map Latin1 s"

definition extractSnippet_wide :: "wide_unit list \<Rightarrow> wide_unit list \<Rightarrow> int option \<Rightarrow> wide_unit list" where
  "extractSnippet_wide content' query matchIndex =
     (if length content' \<le> maxLength then content'
      else
        (let matchIndex' =
               (case matchIndex of
                  None \<Rightarrow> indexOf (toLowerCase_wide content') (toLowerCase_wide query)
                | Some i \<Rightarrow> i)
         in if matchIndex' = -1 then slice content' 0 (int maxLength) @ wide ''...''
            else
              (let snippetStart = max 0 (matchIndex' - 50);
                   snippetEnd = min (int (length content')) (matchIndex' + int (length query) + 100);
                   snippet1 = slice content' snippetStart snippetEnd;
                   snippet2 = (if snippetStart > 0 then wide ''...'' @ snippet1 else snippet1)
               in if snippetEnd < int (length content') then snippet2 @ wide ''...'' else snippet2)))"

section \<open>Queue lemmas\<close>

lemma paths_enqueue: "map qpath (enqueue p c op t q) = filter (\<lambda>x. x \<noteq> p) (map qpath q) @ [p]"
  by (simp add: enqueue_def filter_map comp_def)

lemma paths_remove: "map qpath (remove p q) = filter (\<lambda>x. x \<noteq> p) (map qpath q)"
  by (simp add: remove_def filter_map comp_def)

lemma paths_bump_first: "map qpath (bump_first p q) = map qpath q"
  by (induction q) auto

lemma filter_bump_first: "filter (\<lambda>i. qpath i \<noteq> p) (bump_first p q) = filter (\<lambda>i. qpath i \<noteq> p) q"
  by (induction q) auto

lemma paths_incrementRetry:
  "map qpath (snd (incrementRetry p q)) = map qpath q \<or> map qpath (snd (incrementRetry p q)) = filter (\<lambda>x. x \<noteq> p) (map qpath q)"
  by (auto simp: incrementRetry_def Let_def filter_map comp_def paths_bump_first filter_bump_first split: option.splits)

lemma distinct_apply: "distinct (map qpath q) \<Longrightarrow> distinct (map qpath (apply_queue_op q a))"
proof (cases a)
  case (Enqueue p c op t)
  assume "distinct (map qpath q)"
  then show ?thesis using Enqueue by (simp add: paths_enqueue)
next
  case (Remove p)
  assume "distinct (map qpath q)"
  then show ?thesis using Remove by (simp add: paths_remove)
next
  case (IncrementRetry p)
  assume d: "distinct (map qpath q)"
  from paths_incrementRetry[of p q] d show ?thesis using IncrementRetry
    by auto
qed

lemma distinct_run: "distinct (map qpath q) \<Longrightarrow> distinct (map qpath (run_queue_ops ops q))"
  unfolding run_queue_ops_def
  by (induction ops arbitrary: q) (simp_all add: distinct_apply)

lemma enqueue_count: "length (filter (\<lambda>i. qpath i = p) (enqueue p c op t q)) = 1"
  by (simp add: enqueue_def)

lemma find_None_iff_paths: "find (\<lambda>i. qpath i = p) q = None \<longleftrightarrow> p \<notin> qpath ` set q"
  by (auto simp: find_None_iff)

lemma find_split: "p \<notin> qpath ` set pre \<Longrightarrow> qpath it = p \<Longrightarrow> find (\<lambda>i. qpath i = p) (pre @ it # post) = Some it"
  by (induction pre) auto

lemma bump_first_split: "p \<notin> qpath ` set pre \<Longrightarrow> qpath it = p \<Longrightarrow>
   bump_first p (pre @ it # post) = pre @ it\<lparr>retryCount := retryCount it + 1\<rparr> # post"
  by (induction pre) auto

lemma bump_first_absent: "p \<notin> qpath ` set q \<Longrightarrow> bump_first p q = q"
  by (induction q) auto

lemma incrementRetry_absent: "p \<notin> qpath ` set q \<Longrightarrow> incrementRetry p q = (False, q)"
  using find_None_iff_paths[of p q] by (simp add: incrementRetry_def)

lemma filter_absent: "p \<notin> qpath ` set pre \<Longrightarrow> filter (\<lambda>i. qpath i \<noteq> p) pre = pre"
  by (induction pre) auto

lemma incrementRetry_present:
  "p \<notin> qpath ` set pre \<Longrightarrow> qpath it = p \<Longrightarrow>
   incrementRetry p (pre @ it # post) =
     (if retryCount it + 1 \<ge> 3 then (False, pre @ filter (\<lambda>i. qpath i \<noteq> p) post)
      else (True, pre @ it\<lparr>retryCount := retryCount it + 1\<rparr> # post))"
  by (simp add: incrementRetry_def find_split bump_first_split Let_def MAX_RETRIES_def filter_absent)

lemma bound_bump_first:
  "\<forall>i\<in>set q. retryCount i < 3 \<Longrightarrow> find (\<lambda>i. qpath i = p) q = Some it \<Longrightarrow> retryCount it + 1 < 3 \<Longrightarrow>
   \<forall>i\<in>set (bump_first p q). retryCount i < 3"
  by (induction q) (auto split: if_splits)

lemma bound_bump_first_filter:
  "\<forall>i\<in>set q. retryCount i < 3 \<Longrightarrow> 
   \<forall>i\<in>set (filter (\<lambda>i. qpath i \<noteq> p) (bump_first p q)). retryCount i < 3"
  by (induction q) (auto split: if_splits)

lemma bound_apply: "\<forall>i\<in>set q. retryCount i < 3 \<Longrightarrow> \<forall>i\<in>set (apply_queue_op q a). retryCount i < 3"
proof (cases a)
  case (IncrementRetry p)
  assume b: "\<forall>i\<in>set q. retryCount i < 3"
  show ?thesis
  proof (cases "find (\<lambda>i. qpath i = p) q")
    case None
    then show ?thesis using b IncrementRetry by (simp add: incrementRetry_def)
  next
    case (Some it)
    then show ?thesis using b IncrementRetry bound_bump_first[OF b Some] bound_bump_first_filter[OF b, of p]
      by (auto simp: incrementRetry_def Let_def MAX_RETRIES_def)
  qed
qed (auto simp: enqueue_def remove_def)

lemma bound_run: "\<forall>i\<in>set q. retryCount i < 3 \<Longrightarrow> \<forall>i\<in>set (run_queue_ops ops q). retryCount i < 3"
  unfolding run_queue_ops_def
proof (induction ops arbitrary: q)
  case Nil
  then show ?case by simp
next
  case (Cons a ops)
  from Cons.prems have "\<forall>i\<in>set (apply_queue_op q a). retryCount i < 3" by (rule bound_apply)
  then show ?case using Cons.IH by simp
qed

text \<open>
  Claim C4 (queue uniqueness). Starting from the empty queue, and from any queue in which
  no two items share a path, every sequence of enqueue, remove and incrementRetry calls
  leaves at most one item per path in the \<open>getAll()\<close> snapshot. \<open>enqueue\<close> drops every
  item of the path and appends one fresh item with retryCount 0, so that afterwards
  exactly one item has that path, whatever the queue was before.
\<close>

theorem queue_uniqueness:
  "distinct (map qpath (getAll (run_queue_ops ops [])))
   \<and> (distinct (map qpath items) \<longrightarrow> distinct (map qpath (getAll (run_queue_ops ops items))))
   \<and> butlast (enqueue path c op now items) = filter (\<lambda>i. qpath i \<noteq> path) items
   \<and> last (enqueue path c op now items) =
        \<lparr>qpath = path, qcontent = c, operation = op, timestamp = now, retryCount = 0\<rparr>
   \<and> length (filter (\<lambda>i. qpath i = path) (enqueue path c op now items)) = 1
   \<and> (distinct (map qpath items) \<longrightarrow> distinct (map qpath (enqueue path c op now items)))"
proof -
  have e: "distinct (map qpath ([]::QueueItem list))" by simp
  have "distinct (map qpath (run_queue_ops ops []))" by (rule distinct_run[OF e])
  moreover have "distinct (map qpath items) \<longrightarrow> distinct (map qpath (run_queue_ops ops items))"
    using distinct_run by blast
  moreover have "distinct (map qpath items) \<longrightarrow> distinct (map qpath (enqueue path c op now items))"
    by (simp add: paths_enqueue)
  moreover have "butlast (enqueue path c op now items) = filter (\<lambda>i. qpath i \<noteq> path) items"
    by (simp add: enqueue_def)
  moreover have "last (enqueue path c op now items) =
        \<lparr>qpath = path, qcontent = c, operation = op, timestamp = now, retryCount = 0\<rparr>"
    by (simp add: enqueue_def)
  ultimately show ?thesis by (simp add: getAll_def enqueue_count)
qed

theorem queue_uniqueness_witness:
  "distinct (map qpath [\<lparr>qpath = ''a/x.md'', qcontent = ''one'', operation = Save, timestamp = 5, retryCount = 1\<rparr>,
                        \<lparr>qpath = ''b/y.md'', qcontent = [], operation = Delete, timestamp = 6, retryCount = 0\<rparr>])
   \<and> map qpath (getAll (run_queue_ops
         [Enqueue ''a/x.md'' ''two'' Save 7, IncrementRetry ''b/y.md'', Enqueue ''c/z.md'' ''three'' Save 8,
          Enqueue ''a/x.md'' ''four'' Save 9, Remove ''c/z.md'']
         [\<lparr>qpath = ''a/x.md'', qcontent = ''one'', operation = Save, timestamp = 5, retryCount = 1\<rparr>,
          \<lparr>qpath = ''b/y.md'', qcontent = [], operation = Delete, timestamp = 6, retryCount = 0\<rparr>]))
       = [''b/y.md'', ''a/x.md'']
   \<and> distinct (map qpath (getAll (run_queue_ops
         [Enqueue ''a/x.md'' ''two'' Save 7, IncrementRetry ''b/y.md'', Enqueue ''c/z.md'' ''three'' Save 8,
          Enqueue ''a/x.md'' ''four'' Save 9, Remove ''c/z.md'']
         [\<lparr>qpath = ''a/x.md'', qcontent = ''one'', operation = Save, timestamp = 5, retryCount = 1\<rparr>,
          \<lparr>qpath = ''b/y.md'', qcontent = [], operation = Delete, timestamp = 6, retryCount = 0\<rparr>])))
   \<and> enqueue ''a/x.md'' ''two'' Save 7
         [\<lparr>qpath = ''a/x.md'', qcontent = ''one'', operation = Save, timestamp = 5, retryCount = 1\<rparr>,
          \<lparr>qpath = ''b/y.md'', qcontent = [], operation = Delete, timestamp = 6, retryCount = 0\<rparr>]
       = [\<lparr>qpath = ''b/y.md'', qcontent = [], operation = Delete, timestamp = 6, retryCount = 0\<rparr>,
          \<lparr>qpath = ''a/x.md'', qcontent = ''two'', operation = Save, timestamp = 7, retryCount = 0\<rparr>]"
  using queue_uniqueness
    [of "[Enqueue ''a/x.md'' ''two'' Save 7, IncrementRetry ''b/y.md'', Enqueue ''c/z.md'' ''three'' Save 8,
          Enqueue ''a/x.md'' ''four'' Save 9, Remove ''c/z.md'']"
        "[\<lparr>qpath = ''a/x.md'', qcontent = ''one'', operation = Save, timestamp = 5, retryCount = 1\<rparr>,
          \<lparr>qpath = ''b/y.md'', qcontent = [], operation = Delete, timestamp = 6, retryCount = 0\<rparr>]"
        "''a/x.md''" "''two''" Save 7]
  by (simp add: run_queue_ops_def getAll_def enqueue_def remove_def incrementRetry_def MAX_RETRIES_def)

text \<open>
  Claim C5 (retry bound). \<open>incrementRetry(path)\<close> returns false and changes nothing when
  no item has the path. Otherwise it adds one to the retryCount of the (first) item of
  that path; when the new count is at least 3 the item is dropped and the result is
  false, else the item stays with the new count and the result is true. Every queue
  operation preserves "all retry counts are below 3", so every item of a \<open>getAll()\<close>
  snapshot of a queue that started empty has a retryCount strictly below 3.
\<close>

theorem retry_bound:
  "(path \<notin> qpath ` set items \<longrightarrow> incrementRetry path items = (False, items))
   \<and> (path \<notin> qpath ` set pre \<and> qpath it = path \<longrightarrow>
        incrementRetry path (pre @ it # post) =
          (if retryCount it + 1 \<ge> 3 then (False, pre @ filter (\<lambda>i. qpath i \<noteq> path) post)
           else (True, pre @ it\<lparr>retryCount := retryCount it + 1\<rparr> # post)))
   \<and> ((\<forall>i\<in>set items. retryCount i < 3) \<longrightarrow>
        (\<forall>i\<in>set (getAll (run_queue_ops ops items)). retryCount i < 3))
   \<and> (\<forall>i\<in>set (getAll (run_queue_ops ops [])). retryCount i < 3)"
proof -
  have "\<forall>i\<in>set ([]::QueueItem list). retryCount i < 3" by simp
  then have "\<forall>i\<in>set (run_queue_ops ops []). retryCount i < 3" by (rule bound_run)
  moreover have "(\<forall>i\<in>set items. retryCount i < 3) \<longrightarrow>
        (\<forall>i\<in>set (run_queue_ops ops items). retryCount i < 3)"
    using bound_run by blast
  moreover have "path \<notin> qpath ` set items \<longrightarrow> incrementRetry path items = (False, items)"
    using incrementRetry_absent by blast
  moreover have "path \<notin> qpath ` set pre \<and> qpath it = path \<longrightarrow>
        incrementRetry path (pre @ it # post) =
          (if retryCount it + 1 \<ge> 3 then (False, pre @ filter (\<lambda>i. qpath i \<noteq> path) post)
           else (True, pre @ it\<lparr>retryCount := retryCount it + 1\<rparr> # post))"
    using incrementRetry_present by blast
  ultimately show ?thesis unfolding getAll_def by blast
qed

theorem retry_bound_witness:
  "incrementRetry ''c/z.md''
      [\<lparr>qpath = ''a/x.md'', qcontent = ''one'', operation = Save, timestamp = 5, retryCount = 1\<rparr>,
       \<lparr>qpath = ''b/y.md'', qcontent = ''two'', operation = Save, timestamp = 6, retryCount = 2\<rparr>]
     = (False,
      [\<lparr>qpath = ''a/x.md'', qcontent = ''one'', operation = Save, timestamp = 5, retryCount = 1\<rparr>,
       \<lparr>qpath = ''b/y.md'', qcontent = ''two'', operation = Save, timestamp = 6, retryCount = 2\<rparr>])
   \<and> incrementRetry ''b/y.md''
      [\<lparr>qpath = ''a/x.md'', qcontent = ''one'', operation = Save, timestamp = 5, retryCount = 1\<rparr>,
       \<lparr>qpath = ''b/y.md'', qcontent = ''two'', operation = Save, timestamp = 6, retryCount = 2\<rparr>]
     = (False, [\<lparr>qpath = ''a/x.md'', qcontent = ''one'', operation = Save, timestamp = 5, retryCount = 1\<rparr>])
   \<and> list_all (\<lambda>i. retryCount i < 3) [\<lparr>qpath = ''a/x.md'', qcontent = ''one'', operation = Save, timestamp = 5, retryCount = 1\<rparr>,
               \<lparr>qpath = ''b/y.md'', qcontent = ''two'', operation = Save, timestamp = 6, retryCount = 2\<rparr>]
   \<and> list_all (\<lambda>i. retryCount i < 3) (getAll (run_queue_ops [IncrementRetry ''a/x.md'', IncrementRetry ''b/y.md'']
         [\<lparr>qpath = ''a/x.md'', qcontent = ''one'', operation = Save, timestamp = 5, retryCount = 1\<rparr>,
          \<lparr>qpath = ''b/y.md'', qcontent = ''two'', operation = Save, timestamp = 6, retryCount = 2\<rparr>]))
   \<and> getAll (run_queue_ops [IncrementRetry ''a/x.md'', IncrementRetry ''b/y.md'']
         [\<lparr>qpath = ''a/x.md'', qcontent = ''one'', operation = Save, timestamp = 5, retryCount = 1\<rparr>,
          \<lparr>qpath = ''b/y.md'', qcontent = ''two'', operation = Save, timestamp = 6, retryCount = 2\<rparr>])
     = [\<lparr>qpath = ''a/x.md'', qcontent = ''one'', operation = Save, timestamp = 5, retryCount = 2\<rparr>]
   \<and> incrementRetry ''a/x.md''
      [\<lparr>qpath = ''a/x.md'', qcontent = ''one'', operation = Save, timestamp = 5, retryCount = 1\<rparr>,
       \<lparr>qpath = ''b/y.md'', qcontent = ''two'', operation = Save, timestamp = 6, retryCount = 2\<rparr>]
     = (True,
      [\<lparr>qpath = ''a/x.md'', qcontent = ''one'', operation = Save, timestamp = 5, retryCount = 2\<rparr>,
       \<lparr>qpath = ''b/y.md'', qcontent = ''two'', operation = Save, timestamp = 6, retryCount = 2\<rparr>])"
  using retry_bound
    [of "''c/z.md''"
        "[\<lparr>qpath = ''a/x.md'', qcontent = ''one'', operation = Save, timestamp = 5, retryCount = 1\<rparr>,
          \<lparr>qpath = ''b/y.md'', qcontent = ''two'', operation = Save, timestamp = 6, retryCount = 2\<rparr>]"
        "[]" "\<lparr>qpath = ''a/x.md'', qcontent = ''one'', operation = Save, timestamp = 5, retryCount = 1\<rparr>"
        "[\<lparr>qpath = ''b/y.md'', qcontent = ''two'', operation = Save, timestamp = 6, retryCount = 2\<rparr>]"
        "[IncrementRetry ''a/x.md'', IncrementRetry ''b/y.md'']"]
    retry_bound
    [of "''b/y.md''" "[]"
        "[\<lparr>qpath = ''a/x.md'', qcontent = ''one'', operation = Save, timestamp = 5, retryCount = 1\<rparr>]"
        "\<lparr>qpath = ''b/y.md'', qcontent = ''two'', operation = Save, timestamp = 6, retryCount = 2\<rparr>"
        "[]" "[]"]
    retry_bound
    [of "''a/x.md''" "[]" "[]"
        "\<lparr>qpath = ''a/x.md'', qcontent = ''one'', operation = Save, timestamp = 5, retryCount = 1\<rparr>"
        "[\<lparr>qpath = ''b/y.md'', qcontent = ''two'', operation = Save, timestamp = 6, retryCount = 2\<rparr>]"
        "[]"]
  by (simp add: run_queue_ops_def getAll_def incrementRetry_def MAX_RETRIES_def)
section \<open>Cache lemmas\<close>

subsection \<open>Splitting and categories\<close>

lemma split_str_not_Nil: "split_str sep s \<noteq> []"
  by (induction s) (auto split: list.splits)

lemma split_str_hd: "split_str sep s ! 0 = takeWhile (\<lambda>c. c \<noteq> sep) s"
  using split_str_not_Nil[of sep] by (induction s) (auto split: list.splits)

lemma split_str_length: "Suc 0 < length (split_str sep s) \<longleftrightarrow> sep \<in> set s"
  using split_str_not_Nil[of sep] by (induction s) (auto split: list.splits)

lemma cat_step_eq: "cat_step cats path = (if CHR ''/'' \<in> set path then set_add (first_segment path) cats else cats)"
  by (simp add: cat_step_def Let_def split_str_length split_str_hd first_segment_def)

lemma foldl_cat_step_set:
  "set (foldl cat_step acc ks) = set acc \<union> {first_segment k | k. k \<in> set ks \<and> CHR ''/'' \<in> set k}"
  by (induction ks arbitrary: acc) (auto simp: cat_step_eq set_add_def)

lemma foldl_cat_step_distinct:
  "distinct acc \<Longrightarrow> distinct (foldl cat_step acc ks)"
  by (induction ks arbitrary: acc) (auto simp: cat_step_eq set_add_def)

subsection \<open>Searching a string\<close>

lemma take_eq_length: "take (length n) s = n \<Longrightarrow> length n \<le> length s"
proof -
  assume "take (length n) s = n"
  then have "length (take (length n) s) = length n" by simp
  then show ?thesis by simp
qed

lemma occurs_at_0: "occurs_at s n 0 = startsWith s n"
  by (auto simp: occurs_at_def startsWith_def take_eq_length)

lemma occurs_at_Suc: "occurs_at (c # cs) n (Suc j) = occurs_at cs n j"
  by (simp add: occurs_at_def)

lemma indexOf_from_found:
  "occurs_at s n i \<Longrightarrow> (\<forall>j<i. \<not> occurs_at s n j) \<Longrightarrow> indexOf_from k s n = int (k + i)"
proof (induction s arbitrary: k i)
  case Nil
  then show ?case by (simp add: occurs_at_def)
next
  case (Cons c cs)
  show ?case
  proof (cases "startsWith (c # cs) n")
    case True
    then have "occurs_at (c # cs) n 0" by (simp add: occurs_at_0)
    with Cons.prems(2) have "i = 0" by (cases i) auto
    with True show ?thesis by simp
  next
    case False
    then have n0: "\<not> occurs_at (c # cs) n 0" by (simp add: occurs_at_0)
    with Cons.prems(1) obtain i' where i: "i = Suc i'" by (cases i) auto
    have a: "occurs_at cs n i'" using Cons.prems(1) i by (simp add: occurs_at_Suc)
    have b: "\<forall>j<i'. \<not> occurs_at cs n j"
    proof (intro allI impI)
      fix j assume "j < i'"
      then have "Suc j < i" using i by simp
      with Cons.prems(2) have "\<not> occurs_at (c # cs) n (Suc j)" by blast
      then show "\<not> occurs_at cs n j" by (simp add: occurs_at_Suc)
    qed
    from Cons.IH[OF a b, of "Suc k"] False i show ?thesis by simp
  qed
qed

lemma indexOf_from_absent:
  "(\<forall>j. \<not> occurs_at s n j) \<Longrightarrow> indexOf_from k s n = -1"
proof (induction s arbitrary: k)
  case Nil
  then have "\<not> occurs_at [] n 0" by blast
  then show ?case by (simp add: occurs_at_def)
next
  case (Cons c cs)
  from Cons.prems have "\<not> occurs_at (c # cs) n 0" by blast
  then have f: "\<not> startsWith (c # cs) n" by (simp add: occurs_at_0)
  have "\<forall>j. \<not> occurs_at cs n j"
  proof
    fix j from Cons.prems have "\<not> occurs_at (c # cs) n (Suc j)" by blast
    then show "\<not> occurs_at cs n j" by (simp add: occurs_at_Suc)
  qed
  from Cons.IH[OF this, of "Suc k"] f show ?case by simp
qed

lemma length_toLowerCase: "length (toLowerCase s) = length s"
  by (simp add: toLowerCase_def)

lemma occurs_at_ci_lower: "occurs_at_ci c q i = occurs_at (toLowerCase c) (toLowerCase q) i"
  by (simp add: occurs_at_ci_def occurs_at_def toLowerCase_def take_map drop_map)

lemma indexOf_ci_found:
  "occurs_at_ci c q i \<Longrightarrow> (\<forall>j<i. \<not> occurs_at_ci c q j) \<Longrightarrow> indexOf (toLowerCase c) (toLowerCase q) = int i"
  using indexOf_from_found[of "toLowerCase c" "toLowerCase q" i 0]
  by (simp add: occurs_at_ci_lower indexOf_def)

lemma indexOf_ci_absent:
  "(\<forall>j. \<not> occurs_at_ci c q j) \<Longrightarrow> indexOf (toLowerCase c) (toLowerCase q) = -1"
  using indexOf_from_absent[of "toLowerCase c" "toLowerCase q" 0]
  by (simp add: occurs_at_ci_lower indexOf_def)

lemma slice_in_range:
  "a \<le> b \<Longrightarrow> b \<le> length s \<Longrightarrow> slice s (int a) (int b) = take (b - a) (drop a s)"
  by (simp add: slice_def Let_def nat_diff_distrib' min_def)

lemma snippet_short: "length c \<le> 150 \<Longrightarrow> extractSnippet c q m = c"
  by (simp add: extractSnippet_def maxLength_def)

lemma snippet_absent:
  assumes "length c > 150" "\<forall>j. \<not> occurs_at_ci c q j"
  shows "extractSnippet c q None = take 150 c @ ''...''"
  using assms slice_in_range[of 0 150 c] indexOf_ci_absent[of c q]
  by (simp add: extractSnippet_def maxLength_def)

lemma snippet_window:
  assumes len: "length c > 150" and occ: "occurs_at_ci c q i" and first: "\<forall>j<i. \<not> occurs_at_ci c q j"
  shows "extractSnippet c q None =
     (if 0 < i - 50 then ''...'' else '''')
     @ take (min (length c) (i + length q + 100) - (i - 50)) (drop (i - 50) c)
     @ (if min (length c) (i + length q + 100) < length c then ''...'' else '''')"
proof -
  have ix: "indexOf (toLowerCase c) (toLowerCase q) = int i"
    using occ first by (rule indexOf_ci_found)
  have ile: "i \<le> length c" using occ by (simp add: occurs_at_ci_def)
  have s: "max 0 (int i - 50) = int (i - 50)" by simp
  have e: "min (int (length c)) (int i + int (length q) + 100) = int (min (length c) (i + length q + 100))"
    by simp
  have r: "i - 50 \<le> min (length c) (i + length q + 100)" using ile by arith
  have sl: "slice c (int (i - 50)) (int (min (length c) (i + length q + 100)))
      = take (min (length c) (i + length q + 100) - (i - 50)) (drop (i - 50) c)"
    by (rule slice_in_range[OF r]) simp
  show ?thesis
    using len unfolding extractSnippet_def maxLength_def Let_def ix option.case s e sl
    by simp
qed


lemma char_is_char_of: "(c = char_of (n::nat)) = (take_bit 8 n = of_char c)"
  using char_of_eq_iff[of n c] by auto

lemmas char_eval = char_of_eq_iff char_is_char_of

lemmas lower_eval = toLowerCase_def toLowerCase_unit_def char_eval

subsection \<open>The empty query\<close>

lemma indexOf_empty: "indexOf s [] = 0"
  by (cases s) (simp_all add: indexOf_def startsWith_def)

lemma includes_empty: "includes_str s []"
  by (simp add: includes_str_def indexOf_empty)

lemma snippet_empty_query:
  "extractSnippet c [] None = (if length c \<le> 150 then c else take 100 c @ ''...'')"
  by (simp add: extractSnippet_def maxLength_def Let_def toLowerCase_def indexOf_empty slice_def)

lemma search_loop_empty:
  "search_loop [] [] xs acc =
     acc @ map (\<lambda>(p, e). \<lparr>rpath = p, snippet = extractSnippet (content e) [] None\<rparr>) xs"
  by (induction xs arbitrary: acc) (auto simp: includes_empty)

subsection \<open>Snippets of Latin-1 strings\<close>

text \<open>
  On strings of Latin-1 units the lowered string has the units of the string in the same
  places, and \<open>extractSnippet\<close> returns the window around the first case-insensitive
  occurrence of the query: the content itself when it has at most 150 units; the slice
  from \<open>i - 50\<close> (or 0) to \<open>i + query length + 100\<close> (or the end), with an ellipsis on
  each side that was cut, when the first occurrence is at \<open>i\<close>; the first 150 units and
  an ellipsis when there is none. This is a statement about those strings only.
\<close>

lemma extractSnippet_window_latin1:
  "(length c \<le> 150 \<longrightarrow> extractSnippet c q None = c)
   \<and> (150 < length c \<and> occurs_at_ci c q i \<and> (\<forall>j<i. \<not> occurs_at_ci c q j) \<longrightarrow>
        extractSnippet c q None =
          (if 0 < i - 50 then ''...'' else [])
          @ take (min (length c) (i + length q + 100) - (i - 50)) (drop (i - 50) c)
          @ (if min (length c) (i + length q + 100) < length c then ''...'' else []))
   \<and> (150 < length c \<and> (\<forall>j. \<not> occurs_at_ci c q j) \<longrightarrow>
        extractSnippet c q None = take 150 c @ ''...'')
   \<and> extractSnippet c q (Some (indexOf (toLowerCase c) (toLowerCase q))) = extractSnippet c q None"
proof -
  have "extractSnippet c q (Some (indexOf (toLowerCase c) (toLowerCase q))) = extractSnippet c q None"
    by (simp add: extractSnippet_def)
  then show ?thesis
    using snippet_short[of c q None] snippet_window[of c q i] snippet_absent[of c q] by blast
qed

subsection \<open>A content whose lower case is longer\<close>

lemma indexOf_from_skip:
  "x \<notin> set pre \<Longrightarrow> indexOf_from k (pre @ x # rest) (x # xs)
     = indexOf_from (k + length pre) (x # rest) (x # xs)"
  by (induction pre arbitrary: k) (auto simp: startsWith_def)

lemma indexOf_from_here: "indexOf_from k (n @ rest) n = int k"
proof -
  have s: "startsWith (n @ rest) n" by (simp add: startsWith_def)
  show ?thesis
  proof (cases "n @ rest")
    case Nil
    then show ?thesis by simp
  next
    case (Cons a l)
    with s show ?thesis by simp
  qed
qed

lemma toLowerCase_wide_append:
  "toLowerCase_wide (xs @ ys) = toLowerCase_wide xs @ toLowerCase_wide ys"
  by (simp add: toLowerCase_wide_def)

lemma toLowerCase_wide_dotted:
  "toLowerCase_wide (replicate n U0130) = concat (replicate n [Latin1 CHR ''i'', U0307])"
  by (induction n) (simp_all add: toLowerCase_wide_def)

lemma toLowerCase_wide_b:
  "toLowerCase_wide (replicate n (Latin1 CHR ''b'')) = replicate n (Latin1 CHR ''b'')"
  by (induction n) (simp_all add: toLowerCase_wide_def toLowerCase_unit_def)

lemma length_dotted: "length (concat (replicate n [a, b])) = 2 * n"
  by (induction n) simp_all

lemma set_dotted: "set (concat (replicate n [a, b])) \<subseteq> {a, b}"
  by (induction n) auto

lemma lowered_content:
  "toLowerCase_wide (replicate 60 U0130 @ wide ''xy'' @ replicate 200 (Latin1 CHR ''b''))
     = concat (replicate 60 [Latin1 CHR ''i'', U0307])
         @ Latin1 CHR ''x'' # (Latin1 CHR ''y'' # replicate 200 (Latin1 CHR ''b''))"
proof -
  have "toLowerCase_wide (wide ''xy'') = [Latin1 CHR ''x'', Latin1 CHR ''y'']"
    by (simp add: toLowerCase_wide_def wide_def toLowerCase_unit_def)
  then show ?thesis
    by (simp only: toLowerCase_wide_append toLowerCase_wide_dotted toLowerCase_wide_b) simp
qed

lemma lowered_query: "toLowerCase_wide (wide ''xy'') = Latin1 CHR ''x'' # [Latin1 CHR ''y'']"
  by (simp add: toLowerCase_wide_def wide_def toLowerCase_unit_def)

lemma lowered_index:
  "indexOf (toLowerCase_wide (replicate 60 U0130 @ wide ''xy'' @ replicate 200 (Latin1 CHR ''b'')))
           (toLowerCase_wide (wide ''xy'')) = 120"
proof -
  have n: "Latin1 CHR ''x'' \<notin> set (concat (replicate 60 [Latin1 CHR ''i'', U0307]))"
    using set_dotted[of 60 "Latin1 CHR ''i''" U0307] by auto
  have "indexOf_from 0 (concat (replicate 60 [Latin1 CHR ''i'', U0307])
            @ Latin1 CHR ''x'' # (Latin1 CHR ''y'' # replicate 200 (Latin1 CHR ''b'')))
          (Latin1 CHR ''x'' # [Latin1 CHR ''y''])
        = indexOf_from (0 + length (concat (replicate 60 [Latin1 CHR ''i'', U0307])))
            (Latin1 CHR ''x'' # (Latin1 CHR ''y'' # replicate 200 (Latin1 CHR ''b'')))
            (Latin1 CHR ''x'' # [Latin1 CHR ''y''])"
    by (rule indexOf_from_skip[OF n])
  also have "\<dots> = 120"
    using indexOf_from_here[of 120 "[Latin1 CHR ''x'', Latin1 CHR ''y'']" "replicate 200 (Latin1 CHR ''b'')"]
    by (simp add: length_dotted)
  finally show ?thesis
    unfolding indexOf_def lowered_content lowered_query .
qed

lemma original_index:
  "indexOf (replicate 60 U0130 @ wide ''xy'' @ replicate 200 (Latin1 CHR ''b'')) (wide ''xy'') = 60"
proof -
  have n: "Latin1 CHR ''x'' \<notin> set (replicate 60 U0130)" by simp
  have "indexOf_from 0 (replicate 60 U0130
            @ Latin1 CHR ''x'' # (Latin1 CHR ''y'' # replicate 200 (Latin1 CHR ''b'')))
          (Latin1 CHR ''x'' # [Latin1 CHR ''y''])
        = indexOf_from (0 + length (replicate 60 U0130 :: wide_unit list))
            (Latin1 CHR ''x'' # (Latin1 CHR ''y'' # replicate 200 (Latin1 CHR ''b'')))
            (Latin1 CHR ''x'' # [Latin1 CHR ''y''])"
    by (rule indexOf_from_skip[OF n])
  also have "\<dots> = 60"
    using indexOf_from_here[of 60 "[Latin1 CHR ''x'', Latin1 CHR ''y'']" "replicate 200 (Latin1 CHR ''b'')"]
    by simp
  finally show ?thesis by (simp add: indexOf_def wide_def)
qed

lemma slice_after_match:
  "slice (replicate 60 U0130 @ wide ''xy'' @ replicate 200 (Latin1 CHR ''b'')) 70 222
     = replicate 152 (Latin1 CHR ''b'')"
  by (simp add: slice_def wide_def)

lemma slice_around_match:
  "slice (replicate 60 U0130 @ wide ''xy'' @ replicate 200 (Latin1 CHR ''b'')) 10 162
     = replicate 50 U0130 @ wide ''xy'' @ replicate 100 (Latin1 CHR ''b'')"
  by (simp add: slice_def wide_def)

section \<open>Claims about the cache\<close>

text \<open>
  Claim C3, as amended. For every cache state, \<open>categories()\<close> returns, sorted and
  without repetition, the first slash-delimited segments of the cached keys that contain
  a slash. A key with no slash (the manifest \<open>index.json\<close>, which \<open>updateIndex\<close> stores
  in the same cache) contributes nothing: the loop adds \<open>parts[0]\<close> only when the split
  has more than one part.
\<close>

theorem categories_sorted_first_segments:
  "sorted (categories c) \<and> distinct (categories c)
   \<and> set (categories c) = {first_segment k | k. k \<in> set (cache_keys c) \<and> CHR ''/'' \<in> set k}"
  by (simp add: categories_def foldl_cat_step_set foldl_cat_step_distinct)

theorem categories_sorted_first_segments_witness:
  "sorted (categories [(''b/x.md'', \<lparr>content = ''c'', sha = ''s''\<rparr>), (''index.json'', \<lparr>content = ''c'', sha = ''s''\<rparr>),
                       (''a/y.md'', \<lparr>content = ''c'', sha = ''s''\<rparr>), (''b/z.md'', \<lparr>content = ''c'', sha = ''s''\<rparr>)])
   \<and> categories [(''b/x.md'', \<lparr>content = ''c'', sha = ''s''\<rparr>), (''index.json'', \<lparr>content = ''c'', sha = ''s''\<rparr>),
                  (''a/y.md'', \<lparr>content = ''c'', sha = ''s''\<rparr>), (''b/z.md'', \<lparr>content = ''c'', sha = ''s''\<rparr>)]
       = [''a'', ''b'']"
  using categories_sorted_first_segments
    [of "[(''b/x.md'', \<lparr>content = ''c'', sha = ''s''\<rparr>), (''index.json'', \<lparr>content = ''c'', sha = ''s''\<rparr>),
          (''a/y.md'', \<lparr>content = ''c'', sha = ''s''\<rparr>), (''b/z.md'', \<lparr>content = ''c'', sha = ''s''\<rparr>)]"]
  by (simp add: categories_def cat_step_def cache_keys_def set_add_def)

text \<open>
  The claim as stated fails on a cache that holds only the manifest: the result is
  empty, and neither the key's only segment nor \<open>root\<close> is in it.
\<close>

theorem categories_rootless_counterexample:
  "categories [(''index.json'', \<lparr>content = ''{}'', sha = ''abc''\<rparr>)] = []
   \<and> first_segment ''index.json'' = ''index.json''
   \<and> set (categories [(''index.json'', \<lparr>content = ''{}'', sha = ''abc''\<rparr>)])
        \<noteq> first_segment ` set (cache_keys [(''index.json'', \<lparr>content = ''{}'', sha = ''abc''\<rparr>)])
   \<and> ''root'' \<notin> set (categories [(''index.json'', \<lparr>content = ''{}'', sha = ''abc''\<rparr>)])"
  by (simp add: categories_def cat_step_def cache_keys_def first_segment_def)

text \<open>
  Claim C6 (snippet extraction) does not hold of the code. \<open>extractSnippet\<close> takes the
  position of the match in the lowered content and slices the original content at it;
  the two agree only while lowering keeps every unit in place. For the content of 60
  units U+0130, then \<open>xy\<close>, then 200 units \<open>b\<close>, and the query \<open>xy\<close>, the query first
  occurs at position 60 of the content but at position 120 of the lowered content. The
  snippet, also when \<open>search\<close> passes the position 120 it found, is the slice from 70
  to 222, that is 152 units \<open>b\<close> between two ellipses, and not the slice from 10 to 162
  around the match between two ellipses, which is what the claim describes.
\<close>

theorem snippet_misses_match_after_longer_lower_case:
  "extractSnippet_wide (replicate 60 U0130 @ wide ''xy'' @ replicate 200 (Latin1 CHR ''b'')) (wide ''xy'') None
     = wide ''...'' @ replicate 152 (Latin1 CHR ''b'') @ wide ''...''
   \<and> extractSnippet_wide (replicate 60 U0130 @ wide ''xy'' @ replicate 200 (Latin1 CHR ''b'')) (wide ''xy'') (Some 120)
     = wide ''...'' @ replicate 152 (Latin1 CHR ''b'') @ wide ''...''
   \<and> indexOf (replicate 60 U0130 @ wide ''xy'' @ replicate 200 (Latin1 CHR ''b'')) (wide ''xy'') = 60
   \<and> indexOf (toLowerCase_wide (replicate 60 U0130 @ wide ''xy'' @ replicate 200 (Latin1 CHR ''b'')))
              (toLowerCase_wide (wide ''xy'')) = 120
   \<and> slice (replicate 60 U0130 @ wide ''xy'' @ replicate 200 (Latin1 CHR ''b''))
            (max 0 (60 - 50)) (min 262 (60 + 2 + 100))
       = replicate 50 U0130 @ wide ''xy'' @ replicate 100 (Latin1 CHR ''b'')
   \<and> extractSnippet_wide (replicate 60 U0130 @ wide ''xy'' @ replicate 200 (Latin1 CHR ''b'')) (wide ''xy'') None
     \<noteq> wide ''...'' @ replicate 50 U0130 @ wide ''xy'' @ replicate 100 (Latin1 CHR ''b'') @ wide ''...''"
proof -
  have r: "extractSnippet_wide (replicate 60 U0130 @ wide ''xy'' @ replicate 200 (Latin1 CHR ''b'')) (wide ''xy'') None
     = wide ''...'' @ replicate 152 (Latin1 CHR ''b'') @ wide ''...''"
    unfolding extractSnippet_wide_def maxLength_def Let_def option.case lowered_index
    using slice_after_match by (simp add: wide_def)
  have r': "extractSnippet_wide (replicate 60 U0130 @ wide ''xy'' @ replicate 200 (Latin1 CHR ''b'')) (wide ''xy'') (Some 120)
     = wide ''...'' @ replicate 152 (Latin1 CHR ''b'') @ wide ''...''"
    unfolding extractSnippet_wide_def maxLength_def Let_def option.case
    using slice_after_match by (simp add: wide_def)
  have d: "wide ''...'' @ replicate 152 (Latin1 CHR ''b'') @ wide ''...''
     \<noteq> wide ''...'' @ replicate 50 U0130 @ wide ''xy'' @ replicate 100 (Latin1 CHR ''b'') @ wide ''...''"
  proof
    assume "wide ''...'' @ replicate 152 (Latin1 CHR ''b'') @ wide ''...''
     = wide ''...'' @ replicate 50 U0130 @ wide ''xy'' @ replicate 100 (Latin1 CHR ''b'') @ wide ''...''"
    then have "(wide ''...'' @ replicate 152 (Latin1 CHR ''b'') @ wide ''...'') ! 3
     = (wide ''...'' @ replicate 50 U0130 @ wide ''xy'' @ replicate 100 (Latin1 CHR ''b'') @ wide ''...'') ! 3"
      by simp
    then show False by (simp add: wide_def nth_append)
  qed
  show ?thesis using r r' d original_index lowered_index slice_around_match by simp
qed

text \<open>
  Claim C10 (empty query). For every cache state, \<open>search("")\<close> returns exactly one
  result per cached record, in the cache's insertion order, each as a path hit (the
  lowered empty query is included in every lowered path); the
  snippet is the whole content when it has at most 150 units, and otherwise the
  content's first 100 units followed by \<open>...\<close>.
\<close>

theorem search_empty_query:
  "search [] c =
     map (\<lambda>(p, e). \<lparr>rpath = p,
                     snippet = (if length (content e) \<le> 150 then content e
                                else take 100 (content e) @ ''...'')\<rparr>)
         (cache_entries c)
   \<and> length (search [] c) = length (cache_entries c)
   \<and> map rpath (search [] c) = cache_keys c
   \<and> includes_str (toLowerCase p) (toLowerCase [])"
proof -
  have a: "search [] c =
     map (\<lambda>(p, e). \<lparr>rpath = p,
                     snippet = (if length (content e) \<le> 150 then content e
                                else take 100 (content e) @ ''...'')\<rparr>)
         (cache_entries c)"
    by (simp add: search_def toLowerCase_def search_loop_empty snippet_empty_query)
  have b: "map rpath (search [] c) = cache_keys c"
    unfolding a by (simp add: cache_entries_def cache_keys_def case_prod_unfold comp_def)
  have i: "includes_str (toLowerCase p) (toLowerCase [])"
    by (simp add: toLowerCase_def includes_empty)
  show ?thesis using a b i by simp
qed

theorem search_empty_query_witness:
  "search [] [(''notes/a.md'', \<lparr>content = ''short'', sha = ''s1''\<rparr>),
              (''index.json'', \<lparr>content = replicate 151 CHR ''z'', sha = ''pending''\<rparr>)]
   = [\<lparr>rpath = ''notes/a.md'', snippet = ''short''\<rparr>,
      \<lparr>rpath = ''index.json'', snippet = replicate 100 CHR ''z'' @ ''...''\<rparr>]"
  using search_empty_query
    [of "[(''notes/a.md'', \<lparr>content = ''short'', sha = ''s1''\<rparr>),
          (''index.json'', \<lparr>content = replicate 151 CHR ''z'', sha = ''pending''\<rparr>)]" "[]"]
  by (simp add: cache_entries_def)

section \<open>Writer lemmas\<close>

lemma map_of_map_set: "map_of (map_set k v c) k' = (if k' = k then Some v else map_of c k')"
  by (induction c) auto

lemma cache_get_set:
  "cache_get p' (cache_set p c s m) = (if p' = p then Some \<lparr>content = c, sha = s\<rparr> else cache_get p' m)"
  by (simp add: cache_get_def cache_set_def map_of_map_set)

lemma cache_syncToGitHub: "cache (syncToGitHub p c s w) = cache w"
  by (simp add: syncToGitHub_def)

lemma queue_syncToGitHub: "queue (syncToGitHub p c s w) = queue w"
  by (simp add: syncToGitHub_def)

lemma save_accepted:
  assumes "byteLength c \<le> MAX_FILE_SIZE"
  shows "fst (save cat name c w) = \<lparr>success = True, spath = normalizedCategory cat @ ''/'' @ normalizedName name, error = None\<rparr>"
    and "cache (snd (save cat name c w)) =
           cache_set (normalizedCategory cat @ ''/'' @ normalizedName name) c
             (case cache_get (normalizedCategory cat @ ''/'' @ normalizedName name) (cache w) of
                None \<Rightarrow> ''pending'' | Some e \<Rightarrow> sha e) (cache w)"
  using assms by (simp_all add: save_def Let_def cache_syncToGitHub split: option.splits)

lemma save_rejected:
  assumes "MAX_FILE_SIZE < byteLength c"
  shows "save cat name c w = (\<lparr>success = False, spath = [], error = Some (size_error (byteLength c))\<rparr>, w)"
  using assms by (simp add: save_def Let_def)

lemma byteLength_replicate:
  "byteLength (replicate n c) = n * (if (of_char c :: nat) < 128 then 1 else 2)"
  by (induction n) (simp_all add: byteLength_def)

lemma of_char_eq_D: "of_char c = (n::nat) \<Longrightarrow> c = char_of n"
  by auto

lemma range_09: "48 \<le> n \<Longrightarrow> n \<le> (57::nat) \<Longrightarrow> char_of n \<in> set ''0123456789''"
proof -
  assume "48 \<le> n" "n \<le> 57"
  then have "n \<in> {48..<58}" by simp
  then have "n \<in> set [48..<58]" by (simp only: set_upt)
  then show ?thesis by (auto simp: char_eval)
qed
lemma range_az: "97 \<le> n \<Longrightarrow> n \<le> (122::nat) \<Longrightarrow> char_of n \<in> set ''abcdefghijklmnopqrstuvwxyz''"
proof -
  assume "97 \<le> n" "n \<le> 122"
  then have "n \<in> {97..<123}" by simp
  then have "n \<in> set [97..<123]" by (simp only: set_upt)
  then show ?thesis by (auto simp: char_eval)
qed
lemma in_class_iff: "in_class c \<longleftrightarrow> c \<in> set ''abcdefghijklmnopqrstuvwxyz0123456789-''"
proof
  assume "c \<in> set ''abcdefghijklmnopqrstuvwxyz0123456789-''"
  then show "in_class c" by (auto simp: in_class_def)
next
  assume a: "in_class c"
  define n where "n = (of_char c :: nat)"
  have c: "c = char_of n" by (simp add: n_def)
  from a have "(97 \<le> n \<and> n \<le> 122) \<or> (48 \<le> n \<and> n \<le> 57) \<or> c = CHR 0x2D"
    by (simp add: in_class_def n_def Let_def)
  then have "c \<in> set ''abcdefghijklmnopqrstuvwxyz'' \<or> c \<in> set ''0123456789'' \<or> c = CHR 0x2D"
    using range_az[of n] range_09[of n] unfolding c by blast
  then show "c \<in> set ''abcdefghijklmnopqrstuvwxyz0123456789-''"
    by auto
qed

lemma normalizedCategory_spec: "normalizedCategory cat = spec_category cat"
  unfolding normalizedCategory_def spec_category_def by (simp only: in_class_iff)

lemma ends_in_iff: "ends_in s t \<longleftrightarrow> (\<exists>stem. s = stem @ t)"
proof (induction s)
  case Nil
  then show ?case by auto
next
  case (Cons c cs)
  show ?case
  proof
    assume "ends_in (c # cs) t"
    then consider "c # cs = t" | "ends_in cs t" by auto
    then show "\<exists>stem. c # cs = stem @ t"
    proof cases
      case 1
      then have "c # cs = [] @ t" by simp
      then show ?thesis by blast
    next
      case 2
      then obtain stem where "cs = stem @ t" using Cons.IH by blast
      then have "c # cs = (c # stem) @ t" by simp
      then show ?thesis by blast
    qed
  next
    assume "\<exists>stem. c # cs = stem @ t"
    then obtain stem where s: "c # cs = stem @ t" by blast
    show "ends_in (c # cs) t"
    proof (cases stem)
      case Nil
      then have "t = c # cs" using s by simp
      then show ?thesis by simp
    next
      case (Cons a stem')
      then have "cs = stem' @ t" using s by simp
      then have "ends_in cs t" using Cons.IH by blast
      then show ?thesis by simp
    qed
  qed
qed

lemma endsWith_iff: "endsWith s t \<longleftrightarrow> ends_in s t"
proof
  assume "endsWith s t"
  then have "s = take (length s - length t) s @ t"
    by (simp add: endsWith_def) (metis append_take_drop_id)
  then show "ends_in s t" unfolding ends_in_iff by blast
next
  assume "ends_in s t"
  then obtain stem where "s = stem @ t" unfolding ends_in_iff by blast
  then show "endsWith s t" by (simp add: endsWith_def)
qed

lemma normalizedName_spec: "normalizedName name = spec_name name"
  by (simp add: normalizedName_def spec_name_def endsWith_iff)

lemma rebuilds_updateIndexSafe: "rebuilds (updateIndexSafe remote render w) = rebuilds w + 1"
  by (simp add: updateIndexSafe_def updateIndex_start_def updateIndex_finish_def Let_def split: sum.splits)

lemma rebuilds_settle: "rebuilds (settle p r w) = rebuilds w"
  by (simp add: settle_def split: sum.splits)

lemma rebuilds_drain_item: "rebuilds (drain_item remote item w) = rebuilds w"
  by (simp add: drain_item_def issue_def Let_def rebuilds_settle split: operation.splits option.splits)

lemma rebuilds_drain_items: "rebuilds (drain_items remote items w) = rebuilds w"
  by (induction items arbitrary: w) (simp_all add: rebuilds_drain_item)

lemma drainQueue_nonempty_rebuilds:
  "getAll (queue w) \<noteq> [] \<Longrightarrow> rebuilds (drainQueue remote render w) = rebuilds w + 1"
  by (simp add: drainQueue_def rebuilds_updateIndexSafe rebuilds_drain_items)

lemmas save_eval = save_def Let_def byteLength_def MAX_FILE_SIZE_def normalizedCategory_def
  normalizedName_def endsWith_def in_class_def toLowerCase_def toLowerCase_unit_def
  cache_get_def cache_set_def syncToGitHub_def set_add_def char_eval

section \<open>Claims about the writer\<close>

text \<open>
  Claim C1, as amended. For every category, name and content that \<open>save\<close> accepts (at
  most 1 MiB of UTF-8), and every prior state, the state in which \<open>save\<close> returns, before
  the sync it started is resumed, has a cache record for the composed path with the
  given content; its revision token is the sentinel \<open>pending\<close> when the cache had no
  record for that path before, and the token of the record it replaces otherwise.
\<close>

theorem save_caches_content_with_token:
  "byteLength c \<le> MAX_FILE_SIZE \<Longrightarrow>
     success (fst (save cat name c w))
     \<and> spath (fst (save cat name c w)) = normalizedCategory cat @ ''/'' @ normalizedName name
     \<and> cache_get (spath (fst (save cat name c w))) (cache (snd (save cat name c w)))
         = Some \<lparr>content = c,
                 sha = (case cache_get (spath (fst (save cat name c w))) (cache w) of
                          None \<Rightarrow> ''pending'' | Some e \<Rightarrow> sha e)\<rparr>"
  by (simp add: save_accepted cache_get_set)

theorem save_caches_content_with_token_witness:
  "byteLength ''# Test'' \<le> MAX_FILE_SIZE
   \<and> spath (fst (save ''test'' ''sample.md'' ''# Test'' empty_world)) = ''test/sample.md''
   \<and> cache_get ''test/sample.md'' (cache (snd (save ''test'' ''sample.md'' ''# Test'' empty_world)))
       = Some \<lparr>content = ''# Test'', sha = ''pending''\<rparr>
   \<and> cache_get ''test/sample.md''
        (cache (snd (save ''test'' ''sample.md'' ''# Test''
           (empty_world\<lparr>cache := [(''test/sample.md'', \<lparr>content = ''old'', sha = ''3b18e5''\<rparr>)]\<rparr>))))
       = Some \<lparr>content = ''# Test'', sha = ''3b18e5''\<rparr>"
  using save_caches_content_with_token[of "''# Test''" "''test''" "''sample.md''" empty_world]
    save_caches_content_with_token[of "''# Test''" "''test''" "''sample.md''"
      "empty_world\<lparr>cache := [(''test/sample.md'', \<lparr>content = ''old'', sha = ''3b18e5''\<rparr>)]\<rparr>"]
  by (simp add: save_eval empty_world_def)

text \<open>
  The claim as stated fails on a state whose cache already holds the path with a real
  token: \<open>sha ?? 'pending'\<close> keeps that token.
\<close>

theorem save_pending_token_counterexample:
  "byteLength ''# Test'' \<le> MAX_FILE_SIZE
   \<and> cache_get ''test/sample.md''
        (cache (empty_world\<lparr>cache := [(''test/sample.md'', \<lparr>content = ''old'', sha = ''3b18e5''\<rparr>)]\<rparr>))
       = Some \<lparr>content = ''old'', sha = ''3b18e5''\<rparr>
   \<and> fst (save ''test'' ''sample.md'' ''# Test''
           (empty_world\<lparr>cache := [(''test/sample.md'', \<lparr>content = ''old'', sha = ''3b18e5''\<rparr>)]\<rparr>))
       = \<lparr>success = True, spath = ''test/sample.md'', error = None\<rparr>
   \<and> cache_get ''test/sample.md''
        (cache (snd (save ''test'' ''sample.md'' ''# Test''
           (empty_world\<lparr>cache := [(''test/sample.md'', \<lparr>content = ''old'', sha = ''3b18e5''\<rparr>)]\<rparr>))))
       = Some \<lparr>content = ''# Test'', sha = ''3b18e5''\<rparr>
   \<and> cache_get ''test/sample.md''
        (cache (snd (save ''test'' ''sample.md'' ''# Test''
           (empty_world\<lparr>cache := [(''test/sample.md'', \<lparr>content = ''old'', sha = ''3b18e5''\<rparr>)]\<rparr>))))
       \<noteq> Some \<lparr>content = ''# Test'', sha = ''pending''\<rparr>"
  by (simp add: save_eval empty_world_def)

text \<open>
  Claim C2 (read-your-writes) does not hold of the code. Two saves of the same path are
  made while the first one's sync is in flight: the second updates the cache and skips
  its own sync. When the first sync's \<open>putFile\<close> is then fulfilled, \<open>syncToGitHub\<close>
  writes the content it captured back into the cache with the new token, and a read of
  the path returns the first content, not the one passed to the last save.
\<close>

theorem stale_sync_overwrites_later_save:
  "fst (save ''test'' ''sample.md'' ''first'' empty_world)
     = \<lparr>success = True, spath = ''test/sample.md'', error = None\<rparr>
   \<and> tasks (snd (save ''test'' ''sample.md'' ''first'' empty_world)) = [SyncPut ''test/sample.md'' ''first'']
   \<and> fst (save ''test'' ''sample.md'' ''second'' (snd (save ''test'' ''sample.md'' ''first'' empty_world)))
     = \<lparr>success = True, spath = ''test/sample.md'', error = None\<rparr>
   \<and> tasks (snd (save ''test'' ''sample.md'' ''second'' (snd (save ''test'' ''sample.md'' ''first'' empty_world))))
     = [SyncPut ''test/sample.md'' ''first'']
   \<and> cache_get ''test/sample.md''
        (cache (snd (save ''test'' ''sample.md'' ''second'' (snd (save ''test'' ''sample.md'' ''first'' empty_world)))))
     = Some \<lparr>content = ''second'', sha = ''pending''\<rparr>
   \<and> cache_get ''test/sample.md''
        (cache (resume (\<lambda>ks. ''{}'') 0 0 (Inr ''9fceb0'')
           (snd (save ''test'' ''sample.md'' ''second'' (snd (save ''test'' ''sample.md'' ''first'' empty_world))))))
     = Some \<lparr>content = ''first'', sha = ''9fceb0''\<rparr>"
  by (simp add: save_eval empty_world_def resume_def updateIndex_start_def)

text \<open>
  Claim C7 (draining an empty queue). For every state whose queue snapshot is empty,
  every remote store and every manifest rendering, \<open>drainQueue\<close> returns the state as it
  was: no call on the remote store is made, no index rebuild is started, and the cache
  and the queue are unchanged.
\<close>

theorem drainQueue_empty_no_effect:
  "getAll (queue w) = [] \<Longrightarrow>
     drainQueue remote render w = w
     \<and> calls (drainQueue remote render w) = calls w
     \<and> rebuilds (drainQueue remote render w) = rebuilds w
     \<and> cache (drainQueue remote render w) = cache w
     \<and> queue (drainQueue remote render w) = queue w"
  by (simp add: drainQueue_def)

theorem drainQueue_empty_no_effect_witness:
  "getAll (queue (empty_world\<lparr>cache := [(''test/sample.md'', \<lparr>content = ''# Test'', sha = ''3b18e5''\<rparr>)]\<rparr>)) = []
   \<and> drainQueue (\<lambda>cs. Inr ''9fceb0'') (\<lambda>ks. ''{}'')
        (empty_world\<lparr>cache := [(''test/sample.md'', \<lparr>content = ''# Test'', sha = ''3b18e5''\<rparr>)]\<rparr>)
       = \<lparr>cache = [(''test/sample.md'', \<lparr>content = ''# Test'', sha = ''3b18e5''\<rparr>)],
          queue = [], pendingWrites = [], tasks = [], calls = [], rebuilds = 0\<rparr>"
  using drainQueue_empty_no_effect
    [of "empty_world\<lparr>cache := [(''test/sample.md'', \<lparr>content = ''# Test'', sha = ''3b18e5''\<rparr>)]\<rparr>"
        "\<lambda>cs. Inr ''9fceb0''" "\<lambda>ks. ''{}''"]
  by (simp add: empty_world_def getAll_def)

text \<open>
  Claim C8 (oversized content). For every content whose UTF-8 byte length exceeds 1 MiB,
  \<open>save\<close> returns a failure whose error names the size in KB and the 1024 KB ceiling,
  and the state is exactly as before: cache and queue unchanged, no path marked as in
  flight, no task started and no remote call made.
\<close>

theorem save_oversized_rejected:
  "MAX_FILE_SIZE < byteLength c \<Longrightarrow>
     save cat name c w
       = (\<lparr>success = False, spath = [], error = Some (size_error (byteLength c))\<rparr>, w)
     \<and> cache (snd (save cat name c w)) = cache w
     \<and> queue (snd (save cat name c w)) = queue w
     \<and> pendingWrites (snd (save cat name c w)) = pendingWrites w
     \<and> tasks (snd (save cat name c w)) = tasks w
     \<and> calls (snd (save cat name c w)) = calls w"
  by (simp add: save_rejected)

theorem save_oversized_rejected_witness:
  "MAX_FILE_SIZE < byteLength (replicate 1048577 CHR ''a'')
   \<and> save ''test'' ''big.md'' (replicate 1048577 CHR ''a'') empty_world
       = (\<lparr>success = False, spath = [],
           error = Some ''File size (1024KB) exceeds maximum allowed size (1024KB)''\<rparr>, empty_world)"
  using save_oversized_rejected[of "replicate 1048577 CHR ''a''" "''test''" "''big.md''" empty_world]
  by (simp add: byteLength_replicate MAX_FILE_SIZE_def size_error_def show_nat.simps char_eval)

text \<open>
  Claim C9 (path composition). For every category and name, with a content that \<open>save\<close>
  accepts, the returned path, under which the content is cached, is the normalized
  category, a slash and the normalized name, where the two are as the specification words them: the category in lower case
  with every character outside \<open>[a-z0-9-]\<close> replaced by a hyphen, and the name unchanged
  if it ends in \<open>.md\<close>, \<open>.yaml\<close> or \<open>.json\<close>, with \<open>.md\<close> appended otherwise.
\<close>

theorem save_path_composition:
  "byteLength c \<le> MAX_FILE_SIZE \<Longrightarrow>
     success (fst (save cat name c w))
     \<and> spath (fst (save cat name c w)) = spec_category cat @ ''/'' @ spec_name name
     \<and> map_option content
           (cache_get (spec_category cat @ ''/'' @ spec_name name) (cache (snd (save cat name c w))))
         = Some c"
  by (simp add: save_accepted cache_get_set normalizedCategory_spec normalizedName_spec)

theorem save_path_composition_witness:
  "byteLength ''# Test'' \<le> MAX_FILE_SIZE
   \<and> spath (fst (save ''My Project!'' ''notes'' ''# Test'' empty_world)) = ''my-project-/notes.md''
   \<and> spath (fst (save ''My Project!'' ''data.json'' ''# Test'' empty_world)) = ''my-project-/data.json''
   \<and> cache_keys (cache (snd (save ''My Project!'' ''notes'' ''# Test'' empty_world))) = [''my-project-/notes.md'']
   \<and> spec_category ''My Project!'' = ''my-project-''
   \<and> spec_name ''notes'' = ''notes.md''
   \<and> spec_name ''data.json'' = ''data.json''"
proof -
  have a: "byteLength ''# Test'' \<le> MAX_FILE_SIZE"
    by (simp add: byteLength_def MAX_FILE_SIZE_def)
  have s1: "spath (fst (save ''My Project!'' ''notes'' ''# Test'' empty_world)) = ''my-project-/notes.md''"
    by (simp add: save_eval empty_world_def)
  have s2: "spath (fst (save ''My Project!'' ''data.json'' ''# Test'' empty_world)) = ''my-project-/data.json''"
    by (simp add: save_eval empty_world_def)
  have k: "cache_keys (cache (snd (save ''My Project!'' ''notes'' ''# Test'' empty_world))) = [''my-project-/notes.md'']"
    by (simp add: save_eval empty_world_def cache_keys_def)
  have c: "spec_category ''My Project!'' = ''my-project-''"
    by (simp add: spec_category_def lower_eval)
  from save_path_composition[OF a, of "''My Project!''" "''notes''" empty_world]
  have "spec_category ''My Project!'' @ ''/'' @ spec_name ''notes'' = ''my-project-/notes.md''"
    unfolding s1 by simp
  moreover have "spec_name ''notes'' = ''notes.md''" "spec_name ''data.json'' = ''data.json''"
    by (simp_all add: spec_name_def)
  ultimately show ?thesis using a s1 s2 k c by simp
qed

end
